theory Spec2Isabelle
  imports Main "HOL-Library.Word" "HOL-Library.Sublist"
begin

section \<open>The chrome supervisor of gotenberg (internal/pkg/chrome/chrome.go)\<close>

text \<open>
  The package launches a headless Chromium, probes its DevTools endpoint and relaunches the
  process while the probe fails. Everything the package does is a call into the operating
  system or into a collaborator (\<^verbatim>\<open>syscall.Kill\<close>, \<^verbatim>\<open>exec.Cmd.Start\<close>, \<^verbatim>\<open>devtool.Version\<close>,
  \<^verbatim>\<open>xexec.Command\<close>, \<^verbatim>\<open>time.Sleep\<close>), so the embedding threads a \<^emph>\<open>world\<close> through every
  function: the world holds what each external call will answer, indexed by how many calls of
  that kind were made before, and the trace of the external calls made so far, in order.
  Logger calls (\<^verbatim>\<open>logger.DebugOp\<close>, \<^verbatim>\<open>xexec.LogBeforeExecute\<close>) have no influence on control
  flow or results and are left out.
\<close>

subsection \<open>Data\<close>

text \<open>
  Modelled from the spec: the package \<^verbatim>\<open>xerror\<close> is missing from the sources. The spec has a
  failure "surfaced as an error" and "propagated to the caller", who receives "a single
  terminal error describing the last known cause": \<^verbatim>\<open>xerror.New(op, err)\<close> is a new error that
  records the operation tag and keeps the cause. Every other Go \<^verbatim>\<open>error\<close> is a leaf, known by
  its \<^verbatim>\<open>Error()\<close> message.
\<close>

datatype error = Error string | XError string error

text \<open>Go's \<^verbatim>\<open>int\<close> on the 64-bit targets the program is built for; \<^verbatim>\<open>-x\<close> wraps around.\<close>

type_synonym go_int = "64 word"

text \<open>\<^verbatim>\<open>os.Process\<close>, of which the code reads \<^verbatim>\<open>Pid\<close> only.\<close>

record Process =
  Pid :: go_int

text \<open>
  The command handle (\<^verbatim>\<open>*exec.Cmd\<close>): the binary, the argument list given to
  \<^verbatim>\<open>xexec.Command\<close> and the \<^verbatim>\<open>SysProcAttr.Setpgid\<close> attribute.
\<close>

record Cmd =
  Binary :: string
  Arguments :: "string list"
  Setpgid :: bool

datatype signal = SIGKILL

text \<open>The external calls, each with its arguments and with the answer it got.\<close>

datatype event =
    is_Command: Command string "string list" "error option"
  | is_CmdStart: CmdStart Cmd "error + go_int"
  | is_Kill: Kill go_int signal "string option"
  | is_Sleep: Sleep
  | is_Version: Version string "error + string"

text \<open>
  What the environment answers: the \<open>n\<close>-th call of \<^verbatim>\<open>xexec.Command\<close> fails with an error or
  not, the \<open>n\<close>-th \<^verbatim>\<open>cmd.Start()\<close> fails or yields the pid of the new process, the \<open>n\<close>-th
  \<^verbatim>\<open>syscall.Kill\<close> succeeds or fails with an errno (known by its message), the \<open>n\<close>-th
  \<^verbatim>\<open>Version\<close> request fails with a diagnostic or yields the version answer.
\<close>

record world =
  Command_result :: "nat \<Rightarrow> error option"
  Start_result :: "nat \<Rightarrow> error + go_int"
  Kill_result :: "nat \<Rightarrow> string option"
  Version_result :: "nat \<Rightarrow> error + string"
  trace :: "event list"

definition calls :: "(event \<Rightarrow> bool) \<Rightarrow> world \<Rightarrow> nat" where
  "calls kind w = length (filter kind (trace w))"

definition emit :: "event \<Rightarrow> world \<Rightarrow> world" where
  "emit e w = w\<lparr>trace := trace w @ [e]\<rparr>"

subsection \<open>Collaborators\<close>

text \<open>\<^verbatim>\<open>strings.Contains(s, substr)\<close>.\<close>

fun Contains :: "string \<Rightarrow> string \<Rightarrow> bool" where
  "Contains [] substr = (substr = [])"
| "Contains (c # s) substr = (prefix substr (c # s) \<or> Contains s substr)"

text \<open>
  Modelled from the spec: \<^verbatim>\<open>xexec.Command\<close> is missing from the sources. The spec describes
  the process spawn interface as: "given a binary name and argument list, returns a handle
  representing an unstarted command"; the Go signature adds that it may return an error
  instead.
\<close>

definition xexec_Command :: "string \<Rightarrow> string list \<Rightarrow> world \<Rightarrow> (error + Cmd) \<times> world" where
  "xexec_Command binary args w =
     (let r = Command_result w (calls is_Command w);
          w' = emit (Command binary args r) w
      in case r of
           Some err \<Rightarrow> (Inl err, w')
         | None \<Rightarrow> (Inr \<lparr>Binary = binary, Arguments = args, Setpgid = False\<rparr>, w'))"

text \<open>\<^verbatim>\<open>cmd.Start()\<close> of \<^verbatim>\<open>os/exec\<close>: on success \<^verbatim>\<open>cmd.Process\<close> is the started process.\<close>

definition Cmd_Start :: "Cmd \<Rightarrow> world \<Rightarrow> (error + Process) \<times> world" where
  "Cmd_Start c w =
     (let r = Start_result w (calls is_CmdStart w);
          w' = emit (CmdStart c r) w
      in case r of
           Inl err \<Rightarrow> (Inl err, w')
         | Inr p \<Rightarrow> (Inr \<lparr>Pid = p\<rparr>, w'))"

text \<open>
  \<^verbatim>\<open>syscall.Kill(pid, sig)\<close>: \<open>None\<close> is \<^verbatim>\<open>nil\<close>, \<open>Some msg\<close> is the \<^verbatim>\<open>syscall.Errno\<close> whose
  \<^verbatim>\<open>Error()\<close> is \<open>msg\<close>.
\<close>

definition syscall_Kill :: "go_int \<Rightarrow> signal \<Rightarrow> world \<Rightarrow> string option \<times> world" where
  "syscall_Kill pid sig w =
     (let r = Kill_result w (calls is_Kill w)
      in (r, emit (Kill pid sig r) w))"

text \<open>\<^verbatim>\<open>devtool.New(endpoint).Version(ctx)\<close>.\<close>

definition devtool_Version :: "string \<Rightarrow> world \<Rightarrow> (error + string) \<times> world" where
  "devtool_Version endpoint w =
     (let r = Version_result w (calls is_Version w)
      in (r, emit (Version endpoint r) w))"

subsection \<open>The package\<close>

text \<open>
  \<^verbatim>\<open>warmup\<close>: sleeps for \<^verbatim>\<open>xtime.Duration(0.5)\<close>; the length of the pause plays no part in what
  follows, the call is recorded without it.
\<close>

definition warmup :: "world \<Rightarrow> world" where
  "warmup w = emit Sleep w"

definition maxViabilityTests :: nat where
  "maxViabilityTests = 20"

definition endpoint :: string where
  "endpoint = ''http://localhost:9222''"

text \<open>The closure \<^verbatim>\<open>viable\<close> of \<^verbatim>\<open>IsViable\<close>: one probe attempt.\<close>

definition viable :: "world \<Rightarrow> (bool \<times> error option) \<times> world" where
  "viable w =
     (case devtool_Version endpoint w of
        (Inl err, w') \<Rightarrow> ((False, Some err), w')
      | (Inr v, w') \<Rightarrow> ((True, None), w'))"

text \<open>
  The loop of \<^verbatim>\<open>IsViable\<close>,
  \<^verbatim>\<open>for i := 0; i < maxViabilityTests && !result; i++ { warmup(logger); result, err = viable() }\<close>,
  as a function of the loop variables.
\<close>

function IsViable_loop ::
  "nat \<Rightarrow> bool \<Rightarrow> error option \<Rightarrow> world \<Rightarrow> (bool \<times> error option) \<times> world" where
  "IsViable_loop i result err w =
     (if i < maxViabilityTests \<and> \<not> result
      then (case viable (warmup w) of
              ((result', err'), w') \<Rightarrow> IsViable_loop (i + 1) result' err' w')
      else ((result, err), w))"
  by pat_completeness auto
termination
  by (relation "measure (\<lambda>(i, result, err, w). maxViabilityTests - i)") auto

definition IsViable :: "world \<Rightarrow> (bool \<times> error option) \<times> world" where
  "IsViable w = IsViable_loop 0 False None w"

text \<open>The local \<^verbatim>\<open>binary\<close> and the local \<^verbatim>\<open>args\<close> of \<^verbatim>\<open>cmd\<close>, as it is when the command is built.\<close>

definition binary :: string where
  "binary = ''chromium''"

definition args :: "bool \<Rightarrow> string list" where
  "args ignoreCertificateErrors =
     (let args = [
        ''--no-sandbox'',
        ''--headless'',
        ''--disable-dev-shm-usage'',
        ''--font-render-hinting=none'',
        ''--remote-debugging-port=9222'',
        ''--disable-gpu'',
        ''--disable-translate'',
        ''--disable-extensions'',
        ''--disable-background-networking'',
        ''--safebrowsing-disable-auto-update'',
        ''--disable-sync'',
        ''--disable-default-apps'',
        ''--hide-scrollbars'',
        ''--metrics-recording-only'',
        ''--mute-audio'',
        ''--no-first-run'']
      in if ignoreCertificateErrors
         then args @ [''--ignore-certificate-errors'']
         else args)"

definition cmd :: "bool \<Rightarrow> world \<Rightarrow> (error + Cmd) \<times> world" where
  "cmd ignoreCertificateErrors w =
     (case xexec_Command binary (args ignoreCertificateErrors) w of
        (Inl err, w') \<Rightarrow> (Inl (XError ''chrome.cmd'' err), w')
      | (Inr c, w') \<Rightarrow> (Inr (c\<lparr>Setpgid := True\<rparr>), w'))"

text \<open>
  A call that has not returned within the recursion depth explored is \<open>Pending\<close>; a call that
  has returned gives \<^verbatim>\<open>nil\<close> (\<open>None\<close>) or an error.
\<close>

datatype outcome = Pending | Returns "error option"

text \<open>
  The tail every function of the package shares:
  \<^verbatim>\<open>if err := resolver(); err != nil { return xerror.New(op, err) }; return nil\<close>.
\<close>

definition escalate :: "string \<Rightarrow> error option \<Rightarrow> error option" where
  "escalate op r = (case r of Some err \<Rightarrow> Some (XError op err) | None \<Rightarrow> None)"

text \<open>The same tail after a resolver that has not returned yet: nothing to wrap.\<close>

fun escalated :: "string \<Rightarrow> outcome \<Rightarrow> outcome" where
  "escalated op Pending = Pending"
| "escalated op (Returns r) = Returns (escalate op r)"

definition kill :: "Process \<Rightarrow> world \<Rightarrow> error option \<times> world" where
  "kill proc w =
     (let (r, w') =
        (case syscall_Kill (- Pid proc) SIGKILL w of
           (None, w1) \<Rightarrow> (None, w1)
         | (Some msg, w1) \<Rightarrow>
             (if Contains msg ''no such process'' then (None, w1)
              else (Some (Error msg), w1)))
      in (escalate ''chrome.kill'' r, w'))"

text \<open>
  \<^verbatim>\<open>restart\<close> calls itself with no bound on the depth, so the embedding carries the depth
  explored as fuel: with no fuel left the call is \<open>Pending\<close>, in the world reached so far.
\<close>

fun restart :: "nat \<Rightarrow> Process \<Rightarrow> bool \<Rightarrow> world \<Rightarrow> outcome \<times> world" where
  "restart 0 proc ignoreCertificateErrors w = (Pending, w)"
| "restart (Suc fuel) proc ignoreCertificateErrors w =
     (let (r, w') =
        (case kill proc w of
           (Some err, w1) \<Rightarrow> (Returns (Some err), w1)
         | (None, w1) \<Rightarrow>
             (case cmd ignoreCertificateErrors w1 of
                (Inl err, w2) \<Rightarrow> (Returns (Some err), w2)
              | (Inr c, w2) \<Rightarrow>
                  (case Cmd_Start c w2 of
                     (Inl err, w3) \<Rightarrow> (Returns (Some err), w3)
                   | (Inr p, w3) \<Rightarrow>
                       (case IsViable w3 of
                          ((isViable, _), w4) \<Rightarrow>
                            if \<not> isViable
                            then restart fuel p ignoreCertificateErrors w4
                            else (Returns None, w4)))))
      in (escalated ''chrome.restart'' r, w'))"

definition Start :: "nat \<Rightarrow> bool \<Rightarrow> world \<Rightarrow> outcome \<times> world" where
  "Start fuel ignoreCertificateErrors w =
     (let (r, w') =
        (case cmd ignoreCertificateErrors w of
           (Inl err, w1) \<Rightarrow> (Returns (Some err), w1)
         | (Inr c, w1) \<Rightarrow>
             (case Cmd_Start c w1 of
                (Inl err, w2) \<Rightarrow> (Returns (Some err), w2)
              | (Inr p, w2) \<Rightarrow>
                  (case IsViable w2 of
                     ((isViable, _), w3) \<Rightarrow>
                       if \<not> isViable
                       then restart fuel p ignoreCertificateErrors w3
                       else (Returns None, w3))))
      in (escalated ''chrome.Start'' r, w'))"

section \<open>Notions used to state the properties\<close>

text \<open>The external calls of \<open>n\<close> consecutive probe attempts, the first being the \<open>c\<close>-th overall.\<close>

definition probe_events :: "world \<Rightarrow> nat \<Rightarrow> nat \<Rightarrow> event list" where
  "probe_events w c n =
     concat (map (\<lambda>k. [Sleep, Version endpoint (Version_result w (c + k))]) [0..<n])"

text \<open>The number of probe attempts one call of \<^verbatim>\<open>IsViable\<close> makes.\<close>

definition attempts :: "world \<Rightarrow> nat" where
  "attempts w = calls is_Version (snd (IsViable w)) - calls is_Version w"

text \<open>
  The values given to a flag \<open>name\<close> (written with its \<open>=\<close>) in an argument list, and the port
  of a URL of the form \<open>scheme://host:port\<close>: what follows its last colon.
\<close>

definition flag_values :: "string \<Rightarrow> string list \<Rightarrow> string list" where
  "flag_values name as = map (drop (length name)) (filter (prefix name) as)"

definition url_port :: "string \<Rightarrow> string" where
  "url_port url = rev (takeWhile (\<lambda>c. c \<noteq> CHR '':'') (rev url))"

text \<open>The world after further external calls.\<close>

definition advance :: "world \<Rightarrow> event list \<Rightarrow> world" where
  "advance w es = w\<lparr>trace := trace w @ es\<rparr>"

text \<open>
  The steps \<^verbatim>\<open>Start\<close> and \<^verbatim>\<open>restart\<close> have word for word in common: build the command, start it,
  probe, and restart when the probe loop gave up.
\<close>

definition launch_and_probe :: "nat \<Rightarrow> bool \<Rightarrow> world \<Rightarrow> outcome \<times> world" where
  "launch_and_probe fuel ice w =
     (case cmd ice w of
        (Inl err, w1) \<Rightarrow> (Returns (Some err), w1)
      | (Inr c, w1) \<Rightarrow>
          (case Cmd_Start c w1 of
             (Inl err, w2) \<Rightarrow> (Returns (Some err), w2)
           | (Inr p, w2) \<Rightarrow>
               (case IsViable w2 of
                  ((isViable, _), w3) \<Rightarrow>
                    if \<not> isViable
                    then restart fuel p ice w3
                    else (Returns None, w3))))"

text \<open>The command \<^verbatim>\<open>cmd\<close> returns when \<^verbatim>\<open>xexec.Command\<close> succeeds.\<close>

definition built :: "bool \<Rightarrow> Cmd" where
  "built ice = \<lparr>Binary = binary, Arguments = args ice, Setpgid = True\<rparr>"

text \<open>
  Who holds the debugging port, read off a trace: nobody, the process started last (known by
  its pid), or two processes at once. A process takes the port when \<^verbatim>\<open>cmd.Start()\<close> succeeds
  and gives it up when its group has been signalled (the signal delivered, or the group
  found gone already); any \<^verbatim>\<open>cmd.Start()\<close> while the port is held is a conflict.
\<close>

datatype port = Free | Held go_int | Conflict

fun port_step :: "port \<Rightarrow> event \<Rightarrow> port" where
  "port_step s (CmdStart c r) =
     (case s of
        Free \<Rightarrow> (case r of Inr p \<Rightarrow> Held p | Inl err \<Rightarrow> Free)
      | _ \<Rightarrow> Conflict)"
| "port_step s (Kill target sig r) =
     (case s of
        Held p \<Rightarrow>
          (if target = - p \<and> (case r of None \<Rightarrow> True | Some msg \<Rightarrow> sublist ''no such process'' msg)
           then Free else Held p)
      | _ \<Rightarrow> s)"
| "port_step s (Command b as r) = s"
| "port_step s Sleep = s"
| "port_step s (Version url r) = s"

definition port_after :: "event list \<Rightarrow> port" where
  "port_after es = foldl port_step Free es"


section \<open>Example environments\<close>

text \<open>The browser answers the third probe; nothing else fails.\<close>

definition w_third :: world where
  "w_third = \<lparr>Command_result = (\<lambda>n. None), Start_result = (\<lambda>n. Inr 100),
     Kill_result = (\<lambda>n. None),
     Version_result = (\<lambda>n. if n < 2 then Inl (Error ''connection refused'')
                            else Inr ''HeadlessChrome''),
     trace = []\<rparr>"

text \<open>Every probe is refused and the process group is gone when it is signalled.\<close>

definition w_gone :: world where
  "w_gone = \<lparr>Command_result = (\<lambda>n. None), Start_result = (\<lambda>n. Inr 100),
     Kill_result = (\<lambda>n. Some ''no such process''),
     Version_result = (\<lambda>n. Inl (Error ''connection refused'')),
     trace = []\<rparr>"

text \<open>Every probe is refused; launches and terminations succeed.\<close>

definition w_refused :: world where
  "w_refused = \<lparr>Command_result = (\<lambda>n. None), Start_result = (\<lambda>n. Inr (100 + word_of_nat n)),
     Kill_result = (\<lambda>n. None),
     Version_result = (\<lambda>n. Inl (Error ''connection refused'')),
     trace = []\<rparr>"

text \<open>The first process never answers, the second answers its first probe.\<close>

definition w_second :: world where
  "w_second = \<lparr>Command_result = (\<lambda>n. None), Start_result = (\<lambda>n. Inr (100 + word_of_nat n)),
     Kill_result = (\<lambda>n. None),
     Version_result = (\<lambda>n. if n < 20 then Inl (Error ''connection refused'')
                            else Inr ''HeadlessChrome''),
     trace = []\<rparr>"

text \<open>Every probe is refused and the supervisor may not signal the process group.\<close>

definition w_denied :: world where
  "w_denied = \<lparr>Command_result = (\<lambda>n. None), Start_result = (\<lambda>n. Inr (100 + word_of_nat n)),
     Kill_result = (\<lambda>n. Some ''operation not permitted''),
     Version_result = (\<lambda>n. Inl (Error ''connection refused'')),
     trace = []\<rparr>"

text \<open>The same environment, once a first process (pid 100) has been started.\<close>

definition w_started :: world where
  "w_started = w_denied\<lparr>trace := [CmdStart (built False) (Inr 100)]\<rparr>"

text \<open>Every probe fails, the twentieth with a diagnostic of its own.\<close>

definition w_last :: world where
  "w_last = \<lparr>Command_result = (\<lambda>n. None), Start_result = (\<lambda>n. Inr 100),
     Kill_result = (\<lambda>n. None),
     Version_result = (\<lambda>n. Inl (Error (if n = 19 then ''EOF'' else ''connection refused''))),
     trace = []\<rparr>"

section \<open>The probe loop\<close>

lemma probe_events_0: "probe_events w c 0 = []"
  by (simp add: probe_events_def)

lemma probe_events_Suc_left:
  "probe_events w c (Suc n) = [Sleep, Version endpoint (Version_result w c)] @ probe_events w (Suc c) n"
proof -
  have "[0..<Suc n] = 0 # map Suc [0..<n]"
    by (simp add: upt_conv_Cons map_Suc_upt del: upt_Suc)
  then show ?thesis
    by (simp add: probe_events_def comp_def del: upt_Suc)
qed

lemma viable_warmup:
  "viable (warmup w) =
     ((case Version_result w (calls is_Version w) of Inl err \<Rightarrow> (False, Some err) | Inr v \<Rightarrow> (True, None)),
      w\<lparr>trace := trace w @ [Sleep, Version endpoint (Version_result w (calls is_Version w))]\<rparr>)"
  by (simp add: viable_def warmup_def devtool_Version_def emit_def calls_def Let_def split: sum.splits)

lemma IsViable_loop_spec:
  "\<exists>n. snd (IsViable_loop i result err w) = w\<lparr>trace := trace w @ probe_events w (calls is_Version w) n\<rparr>
     \<and> n \<le> maxViabilityTests - i
     \<and> (result \<longrightarrow> n = 0)
     \<and> (\<not> result \<and> i < maxViabilityTests \<longrightarrow> 1 \<le> n)
     \<and> (\<forall>k<n - 1. isl (Version_result w (calls is_Version w + k)))
     \<and> (1 \<le> n \<and> n < maxViabilityTests - i \<longrightarrow> \<not> isl (Version_result w (calls is_Version w + n - 1)))
     \<and> fst (IsViable_loop i result err w) =
         (if n = 0 then (result, err)
          else case Version_result w (calls is_Version w + n - 1) of
                 Inl e \<Rightarrow> (False, Some e) | Inr v \<Rightarrow> (True, None))"
proof (induction i result err w rule: IsViable_loop.induct)
  case (1 i result err w)
  show ?case
  proof (cases "i < maxViabilityTests \<and> \<not> result")
    case False
    then show ?thesis
      by (intro exI[of _ 0]) (auto simp: probe_events_0)
  next
    case True
    let ?c = "calls is_Version w"
    let ?r = "Version_result w ?c"
    let ?w1 = "w\<lparr>trace := trace w @ [Sleep, Version endpoint ?r]\<rparr>"
    obtain result' err' where v: "(case ?r of Inl e \<Rightarrow> (False, Some e) | Inr v \<Rightarrow> (True, None)) = (result', err')"
      by (cases ?r) auto
    have step: "viable (warmup w) = ((result', err'), ?w1)"
      by (simp add: viable_warmup v)
    have unfold: "IsViable_loop i result err w = IsViable_loop (i + 1) result' err' ?w1"
      using True step by simp
    have c1: "calls is_Version ?w1 = Suc ?c"
      by (simp add: calls_def)
    from "1.IH"[OF True step[symmetric] refl]
    obtain n where n:
      "snd (IsViable_loop (i + 1) result' err' ?w1) = ?w1\<lparr>trace := trace ?w1 @ probe_events ?w1 (Suc ?c) n\<rparr>"
      "n \<le> maxViabilityTests - (i + 1)"
      "result' \<longrightarrow> n = 0"
      "\<not> result' \<and> i + 1 < maxViabilityTests \<longrightarrow> 1 \<le> n"
      "\<forall>k<n - 1. isl (Version_result ?w1 (Suc ?c + k))"
      "1 \<le> n \<and> n < maxViabilityTests - (i + 1) \<longrightarrow> \<not> isl (Version_result ?w1 (Suc ?c + n - 1))"
      "fst (IsViable_loop (i + 1) result' err' ?w1) =
         (if n = 0 then (result', err')
          else case Version_result ?w1 (Suc ?c + n - 1) of
                 Inl e \<Rightarrow> (False, Some e) | Inr v \<Rightarrow> (True, None))"
      unfolding c1 by blast
    have pe: "probe_events ?w1 = probe_events w"
      by (simp add: probe_events_def fun_eq_iff)
    have res': "result' = (\<not> isl ?r)"
      using v by (cases ?r) auto
    show ?thesis
    proof (intro exI[of _ "Suc n"] conjI)
      show "snd (IsViable_loop i result err w) = w\<lparr>trace := trace w @ probe_events w ?c (Suc n)\<rparr>"
        unfolding unfold n(1) pe by (simp add: probe_events_Suc_left)
      show "Suc n \<le> maxViabilityTests - i"
        using n(2) True by linarith
      show "result \<longrightarrow> Suc n = 0" using True by simp
      show "\<not> result \<and> i < maxViabilityTests \<longrightarrow> 1 \<le> Suc n" by simp
      show "\<forall>k<Suc n - 1. isl (Version_result w (?c + k))"
      proof (intro allI impI)
        fix k assume k: "k < Suc n - 1"
        then have "n \<noteq> 0" by simp
        with n(3) have "\<not> result'" by blast
        show "isl (Version_result w (?c + k))"
        proof (cases k)
          case 0
          with \<open>\<not> result'\<close> res' show ?thesis by simp
        next
          case (Suc j)
          with k have "j < n - 1" by simp
          with n(5) have "isl (Version_result ?w1 (Suc ?c + j))" by blast
          with Suc show ?thesis by simp
        qed
      qed
      show "1 \<le> Suc n \<and> Suc n < maxViabilityTests - i \<longrightarrow> \<not> isl (Version_result w (?c + Suc n - 1))"
      proof (intro impI)
        assume a: "1 \<le> Suc n \<and> Suc n < maxViabilityTests - i"
        show "\<not> isl (Version_result w (?c + Suc n - 1))"
        proof (cases "n = 0")
          case True
          with a have "i + 1 < maxViabilityTests" by simp
          with n(4) True have "result'" by auto
          with res' True show ?thesis by simp
        next
          case False
          with a n(6) have "\<not> isl (Version_result ?w1 (Suc ?c + n - 1))" by simp
          with False show ?thesis by simp
        qed
      qed
      show "fst (IsViable_loop i result err w) =
         (if Suc n = 0 then (result, err)
          else case Version_result w (?c + Suc n - 1) of
                 Inl e \<Rightarrow> (False, Some e) | Inr v \<Rightarrow> (True, None))"
        unfolding unfold n(7) using v by (cases "n = 0") auto
    qed
  qed
qed

lemma filter_probe_events:
  "length (filter is_Version (probe_events w c n)) = n"
  "filter is_Kill (probe_events w c n) = []"
  "filter is_Command (probe_events w c n) = []"
  "filter is_CmdStart (probe_events w c n) = []"
  by (induction n arbitrary: c) (simp_all add: probe_events_0 probe_events_Suc_left)

lemma last_probe_events:
  "1 \<le> n \<Longrightarrow> last (xs @ probe_events w c n) = Version endpoint (Version_result w (c + n - 1))"
proof (induction n arbitrary: c xs)
  case 0
  then show ?case by simp
next
  case (Suc n)
  show ?case
  proof (cases "n = 0")
    case True
    then show ?thesis by (simp add: probe_events_Suc_left probe_events_0)
  next
    case False
    then have "1 \<le> n" by simp
    from Suc.IH[OF this, of "xs @ [Sleep, Version endpoint (Version_result w c)]" "Suc c"] False
    show ?thesis by (simp add: probe_events_Suc_left)
  qed
qed

lemma IsViable_spec:
  "\<exists>n. snd (IsViable w) = w\<lparr>trace := trace w @ probe_events w (calls is_Version w) n\<rparr>
     \<and> 1 \<le> n \<and> n \<le> maxViabilityTests
     \<and> (\<forall>k<n - 1. isl (Version_result w (calls is_Version w + k)))
     \<and> (n < maxViabilityTests \<longrightarrow> \<not> isl (Version_result w (calls is_Version w + n - 1)))
     \<and> fst (IsViable w) =
         (case Version_result w (calls is_Version w + n - 1) of
            Inl e \<Rightarrow> (False, Some e) | Inr v \<Rightarrow> (True, None))"
proof -
  from IsViable_loop_spec[of 0 False None w]
  obtain n where n: "snd (IsViable_loop 0 False None w) = w\<lparr>trace := trace w @ probe_events w (calls is_Version w) n\<rparr>"
     "n \<le> maxViabilityTests - 0"
     "\<not> False \<and> 0 < maxViabilityTests \<longrightarrow> 1 \<le> n"
     "\<forall>k<n - 1. isl (Version_result w (calls is_Version w + k))"
     "1 \<le> n \<and> n < maxViabilityTests - 0 \<longrightarrow> \<not> isl (Version_result w (calls is_Version w + n - 1))"
     "fst (IsViable_loop 0 False None w) =
         (if n = 0 then (False, None)
          else case Version_result w (calls is_Version w + n - 1) of
                 Inl e \<Rightarrow> (False, Some e) | Inr v \<Rightarrow> (True, None))"
    by blast
  have pos: "1 \<le> n" using n(3) by (simp add: maxViabilityTests_def)
  show ?thesis
    using n pos by (intro exI[of _ n]) (simp add: IsViable_def)
qed

lemma attempts_spec:
  "snd (IsViable w) = w\<lparr>trace := trace w @ probe_events w (calls is_Version w) (attempts w)\<rparr>
     \<and> 1 \<le> attempts w \<and> attempts w \<le> maxViabilityTests
     \<and> (\<forall>k<attempts w - 1. isl (Version_result w (calls is_Version w + k)))
     \<and> (attempts w < maxViabilityTests \<longrightarrow> \<not> isl (Version_result w (calls is_Version w + attempts w - 1)))
     \<and> fst (IsViable w) =
         (case Version_result w (calls is_Version w + attempts w - 1) of
            Inl e \<Rightarrow> (False, Some e) | Inr v \<Rightarrow> (True, None))"
proof -
  from IsViable_spec[of w] obtain n where n:
    "snd (IsViable w) = w\<lparr>trace := trace w @ probe_events w (calls is_Version w) n\<rparr>"
    and rest: "1 \<le> n \<and> n \<le> maxViabilityTests
     \<and> (\<forall>k<n - 1. isl (Version_result w (calls is_Version w + k)))
     \<and> (n < maxViabilityTests \<longrightarrow> \<not> isl (Version_result w (calls is_Version w + n - 1)))
     \<and> fst (IsViable w) =
         (case Version_result w (calls is_Version w + n - 1) of
            Inl e \<Rightarrow> (False, Some e) | Inr v \<Rightarrow> (True, None))"
    by blast
  have "attempts w = n"
    by (simp add: attempts_def n calls_def filter_probe_events)
  with n rest show ?thesis by simp
qed

text \<open>
  C1. Whatever the probes answer, one call of \<^verbatim>\<open>IsViable\<close> makes at least 1 and at most 20
  probe attempts. It stops at the first attempt that reports viable: every attempt before the
  last one failed, and when fewer than 20 attempts were made the last one reported viable.
\<close>

theorem IsViable_bounded_attempts:
  "1 \<le> attempts w \<and> attempts w \<le> 20
   \<and> (\<forall>k < attempts w - 1. isl (Version_result w (calls is_Version w + k)))
   \<and> (attempts w < 20 \<longrightarrow> \<not> isl (Version_result w (calls is_Version w + attempts w - 1)))"
  using attempts_spec[of w] by (simp add: maxViabilityTests_def)

theorem IsViable_bounded_attempts_witness:
  "attempts w_third = 3 \<and> (3::nat) < 20 \<and> \<not> isl (Version_result w_third (calls is_Version w_third + 3 - 1))"
proof -
  let ?n = "attempts w_third"
  have c: "calls is_Version w_third = 0"
    by (simp add: calls_def w_third_def)
  have r: "\<And>k. isl (Version_result w_third k) = (k < 2)"
    by (simp add: w_third_def)
  from IsViable_bounded_attempts[of w_third]
  have b: "1 \<le> ?n" "?n \<le> 20" "\<forall>k < ?n - 1. k < 2" "?n < 20 \<longrightarrow> \<not> (?n - 1 < 2)"
    unfolding c r by simp_all
  from b(3) have "?n - 1 \<le> 2"
    by (metis less_irrefl not_le_imp_less)
  with b(1,4) have "?n = 3" by auto
  then show ?thesis by (simp add: c r)
qed

text \<open>
  C9. \<^verbatim>\<open>IsViable\<close> returns what its last attempt returned: the flag and the error are those of
  the final probe made (which is the last external call of \<^verbatim>\<open>IsViable\<close>), \<open>(false, err)\<close> when
  that probe failed with \<open>err\<close> and \<open>(true, nil)\<close> when it answered; the results of the
  attempts before it are gone.
\<close>

theorem IsViable_returns_last_attempt:
  "fst (IsViable w) =
     (case Version_result w (calls is_Version w + attempts w - 1) of
        Inl err \<Rightarrow> (False, Some err) | Inr v \<Rightarrow> (True, None))
   \<and> last (trace (snd (IsViable w))) =
       Version endpoint (Version_result w (calls is_Version w + attempts w - 1))"
proof -
  note s = attempts_spec[of w]
  from s have "1 \<le> attempts w" by blast
  from last_probe_events[OF this, of "trace w" w "calls is_Version w"] s
  show ?thesis by simp
qed

lemma never_viable_attempts:
  assumes "\<forall>k. isl (Version_result w k)"
  shows "attempts w = 20"
proof -
  from attempts_spec[of w] assms have "\<not> attempts w < maxViabilityTests" by blast
  with attempts_spec[of w] show ?thesis by (simp add: maxViabilityTests_def)
qed

theorem IsViable_returns_last_attempt_witness:
  "fst (IsViable w_last) = (False, Some (Error ''EOF''))
   \<and> last (trace (snd (IsViable w_last))) = Version endpoint (Inl (Error ''EOF''))"
proof -
  have a: "attempts w_last = 20"
    by (rule never_viable_attempts) (simp add: w_last_def)
  have c: "calls is_Version w_last = 0"
    by (simp add: calls_def w_last_def)
  have r: "Version_result w_last (0 + 20 - 1) = Inl (Error ''EOF'')"
    by (simp add: w_last_def)
  from IsViable_returns_last_attempt[of w_last] show ?thesis
    unfolding a c r by simp
qed

section \<open>Termination and command construction\<close>

lemma Contains_sublist: "Contains s substr = sublist substr s"
  by (induction s) (auto simp: sublist_Cons_right)

lemma kill_unfold:
  "kill proc w =
     (case Kill_result w (calls is_Kill w) of
        None \<Rightarrow> None
      | Some msg \<Rightarrow> if Contains msg ''no such process'' then None
                    else Some (XError ''chrome.kill'' (Error msg)),
      w\<lparr>trace := trace w @ [Kill (- Pid proc) SIGKILL (Kill_result w (calls is_Kill w))]\<rparr>)"
  by (simp add: kill_def syscall_Kill_def emit_def escalate_def Let_def split: option.splits)

text \<open>
  C4. \<^verbatim>\<open>kill\<close> returns \<^verbatim>\<open>nil\<close> when the signal was delivered and when delivery failed with an
  errno whose message contains "no such process" (the process has already exited); every
  other delivery failure comes back to the caller of \<^verbatim>\<open>kill\<close> as an error, the errno wrapped
  under the tag \<^verbatim>\<open>chrome.kill\<close>.
\<close>

theorem kill_idempotent:
  "fst (kill proc w) =
     (case Kill_result w (calls is_Kill w) of
        None \<Rightarrow> None
      | Some msg \<Rightarrow>
          if sublist ''no such process'' msg then None
          else Some (XError ''chrome.kill'' (Error msg)))"
  by (simp add: kill_unfold Contains_sublist split: option.splits)

theorem kill_idempotent_witness:
  "Kill_result w_gone (calls is_Kill w_gone) = Some ''no such process''
   \<and> fst (kill \<lparr>Pid = 100\<rparr> w_gone) = None"
proof -
  have k: "Kill_result w_gone (calls is_Kill w_gone) = Some ''no such process''"
    by (simp add: w_gone_def)
  have "sublist ''no such process'' ''no such process''"
    by (rule sublist_order.order_refl)
  with kill_idempotent[of "\<lparr>Pid = 100\<rparr>" w_gone] k show ?thesis
    by simp
qed

lemma sint_neg_go_int:
  fixes p :: go_int
  assumes "sint p \<noteq> - (2 ^ 63)"
  shows "sint (- p) = - sint p"
proof -
  have lo: "- (2 ^ 63) \<le> sint p" and hi: "sint p < 2 ^ 63"
    using sint_ge[of p] sint_lt[of p] by simp_all
  have "sint (- p) = signed_take_bit 63 (- sint p)"
    by (simp add: sint_word_ariths)
  also have "\<dots> = - sint p"
    using lo hi assms by (intro signed_take_bit_int_eq_self) simp_all
  finally show ?thesis .
qed

text \<open>
  C6. For every process \<^verbatim>\<open>kill\<close> is asked to terminate, the one signal it sends is
  \<^verbatim>\<open>SIGKILL\<close> to \<^verbatim>\<open>-proc.Pid\<close>, the negated pid, which addresses the process group led by the
  process. The negation is Go's; read as a signed number it is minus the pid for every pid
  but the least \<^verbatim>\<open>int\<close>.
\<close>

theorem kill_signals_group:
  "trace (snd (kill proc w)) =
     trace w @ [Kill (- Pid proc) SIGKILL (Kill_result w (calls is_Kill w))]
   \<and> (sint (Pid proc) \<noteq> - (2 ^ 63) \<longrightarrow> sint (- Pid proc) = - sint (Pid proc))"
  by (simp add: kill_unfold sint_neg_go_int)

theorem kill_signals_group_witness:
  "sint (Pid \<lparr>Pid = 100\<rparr>) \<noteq> - (2 ^ 63)
   \<and> trace (snd (kill \<lparr>Pid = 100\<rparr> w_gone)) = [Kill (- 100) SIGKILL (Some ''no such process'')]
   \<and> sint (- Pid \<lparr>Pid = 100\<rparr>) = - 100"
proof -
  have h: "sint (Pid \<lparr>Pid = 100\<rparr>) \<noteq> - (2 ^ 63)" by simp
  have t: "trace w_gone = []" "Kill_result w_gone (calls is_Kill w_gone) = Some ''no such process''"
    by (simp_all add: w_gone_def)
  from kill_signals_group[of "\<lparr>Pid = 100\<rparr>" w_gone] h t show ?thesis
    by simp
qed

lemma cmd_unfold:
  "cmd ice w =
     (case Command_result w (calls is_Command w) of
        Some err \<Rightarrow> Inl (XError ''chrome.cmd'' err)
      | None \<Rightarrow> Inr \<lparr>Binary = binary, Arguments = args ice, Setpgid = True\<rparr>,
      w\<lparr>trace := trace w @ [Command binary (args ice) (Command_result w (calls is_Command w))]\<rparr>)"
  by (simp add: cmd_def xexec_Command_def emit_def Let_def split: option.splits)

text \<open>
  C7. For both values of \<^verbatim>\<open>ignoreCertificateErrors\<close>: the flag
  \<^verbatim>\<open>--ignore-certificate-errors\<close> is in the argument list \<^verbatim>\<open>cmd\<close> builds, hands to
  \<^verbatim>\<open>xexec.Command\<close> and returns in the command, exactly when the tolerance is requested.
\<close>

theorem cmd_certificate_flag:
  "(''--ignore-certificate-errors'' \<in> set (args ice)) = ice
   \<and> trace (snd (cmd ice w)) =
       trace w @ [Command binary (args ice) (Command_result w (calls is_Command w))]
   \<and> (\<forall>c. fst (cmd ice w) = Inr c \<longrightarrow>
         (''--ignore-certificate-errors'' \<in> set (Arguments c)) = ice)"
  by (auto simp: cmd_unfold args_def Let_def split: option.splits)

theorem cmd_certificate_flag_witness:
  "fst (cmd True w_gone) =
      Inr \<lparr>Binary = binary, Arguments = args True, Setpgid = True\<rparr>
   \<and> ''--ignore-certificate-errors'' \<in> set (Arguments \<lparr>Binary = binary, Arguments = args True, Setpgid = True\<rparr>)"
proof -
  have h: "fst (cmd True w_gone) = Inr \<lparr>Binary = binary, Arguments = args True, Setpgid = True\<rparr>"
    by (simp add: cmd_unfold w_gone_def)
  from cmd_certificate_flag[of True w_gone] h show ?thesis
    by simp
qed

text \<open>
  C8. For every configuration the launch flags carry exactly one remote debugging port, and
  it is the port of the endpoint the probe asks: both are 9222. The probe's request goes to
  that endpoint and the launch goes out with those flags.
\<close>

theorem port_invariance:
  "flag_values ''--remote-debugging-port='' (args ice) = [url_port endpoint]
   \<and> url_port endpoint = ''9222''
   \<and> trace (snd (viable w)) =
       trace w @ [Version endpoint (Version_result w (calls is_Version w))]
   \<and> trace (snd (cmd ice w)) =
       trace w @ [Command binary (args ice) (Command_result w (calls is_Command w))]"
  by (simp add: cmd_unfold viable_def devtool_Version_def emit_def Let_def
        flag_values_def url_port_def endpoint_def args_def split: sum.splits prod.splits)

text \<open>
  C10. \<^verbatim>\<open>cmd\<close> always asks for the binary \<^verbatim>\<open>chromium\<close> with the same 16 flags in the same
  order; with certificate tolerance requested the flag \<^verbatim>\<open>--ignore-certificate-errors\<close> follows
  them as the one last argument, and nothing else (the world included) changes the list.
\<close>

theorem cmd_fixed_arguments:
  "trace (snd (cmd ice w)) =
     trace w @ [Command ''chromium''
       ([''--no-sandbox'', ''--headless'', ''--disable-dev-shm-usage'',
         ''--font-render-hinting=none'', ''--remote-debugging-port=9222'', ''--disable-gpu'',
         ''--disable-translate'', ''--disable-extensions'', ''--disable-background-networking'',
         ''--safebrowsing-disable-auto-update'', ''--disable-sync'', ''--disable-default-apps'',
         ''--hide-scrollbars'', ''--metrics-recording-only'', ''--mute-audio'',
         ''--no-first-run'']
        @ (if ice then [''--ignore-certificate-errors''] else []))
       (Command_result w (calls is_Command w))]
   \<and> length (args False) = 16
   \<and> args True = args False @ [''--ignore-certificate-errors'']
   \<and> take 16 (args ice) = args False"
  by (simp add: cmd_unfold args_def binary_def Let_def)

section \<open>Supervision: launch, probe, restart\<close>

lemma advance_simps [simp]:
  "Command_result (advance w es) = Command_result w"
  "Start_result (advance w es) = Start_result w"
  "Kill_result (advance w es) = Kill_result w"
  "Version_result (advance w es) = Version_result w"
  "trace (advance w es) = trace w @ es"
  "advance (advance w es) es' = advance w (es @ es')"
  "calls kind (advance w es) = calls kind w + length (filter kind es)"
  by (simp_all add: advance_def calls_def)

lemma probe_events_advance [simp]: "probe_events (advance w es) = probe_events w"
  by (simp add: probe_events_def fun_eq_iff)

lemma Start_factored:
  "Start fuel ice w =
     (escalated ''chrome.Start'' (fst (launch_and_probe fuel ice w)),
      snd (launch_and_probe fuel ice w))"
  by (simp add: Start_def launch_and_probe_def split: prod.splits sum.splits)

lemma restart_factored:
  "restart (Suc fuel) proc ice w =
     (case fst (kill proc w) of
        Some err \<Rightarrow> (Returns (Some (XError ''chrome.restart'' err)), snd (kill proc w))
      | None \<Rightarrow>
          (escalated ''chrome.restart'' (fst (launch_and_probe fuel ice (snd (kill proc w)))),
           snd (launch_and_probe fuel ice (snd (kill proc w)))))"
  by (simp add: launch_and_probe_def escalate_def split: prod.splits sum.splits option.splits)

lemma kill_advance:
  "kill proc w =
     (case Kill_result w (calls is_Kill w) of
        None \<Rightarrow> None
      | Some msg \<Rightarrow> if sublist ''no such process'' msg then None
                    else Some (XError ''chrome.kill'' (Error msg)),
      advance w [Kill (- Pid proc) SIGKILL (Kill_result w (calls is_Kill w))])"
  by (simp add: kill_unfold advance_def Contains_sublist split: option.splits)

lemma cmd_advance:
  "cmd ice w =
     (case Command_result w (calls is_Command w) of
        Some err \<Rightarrow> Inl (XError ''chrome.cmd'' err)
      | None \<Rightarrow> Inr (built ice),
      advance w [Command binary (args ice) (Command_result w (calls is_Command w))])"
  by (simp add: cmd_unfold advance_def built_def split: option.splits)

lemma Cmd_Start_advance:
  "Cmd_Start c w =
     (case Start_result w (calls is_CmdStart w) of
        Inl err \<Rightarrow> Inl err
      | Inr p \<Rightarrow> Inr \<lparr>Pid = p\<rparr>,
      advance w [CmdStart c (Start_result w (calls is_CmdStart w))])"
  by (simp add: Cmd_Start_def emit_def advance_def Let_def split: sum.splits)

lemma IsViable_advance:
  "IsViable w =
     (case Version_result w (calls is_Version w + attempts w - 1) of
        Inl err \<Rightarrow> (False, Some err) | Inr v \<Rightarrow> (True, None),
      advance w (probe_events w (calls is_Version w) (attempts w)))"
  using attempts_spec[of w] by (intro prod_eqI) (simp_all add: advance_def)

lemma not_viable_attempts:
  assumes "\<not> fst (fst (IsViable w))"
  shows "attempts w = 20" and "\<forall>k<20. isl (Version_result w (calls is_Version w + k))"
proof -
  note s = attempts_spec[of w]
  let ?c = "calls is_Version w"
  let ?n = "attempts w"
  from assms have l: "isl (Version_result w (?c + ?n - 1))"
    by (simp add: IsViable_advance split: sum.splits)
  with s have "\<not> ?n < maxViabilityTests" by blast
  with s show n: "?n = 20" by (simp add: maxViabilityTests_def)
  show "\<forall>k<20. isl (Version_result w (?c + k))"
  proof (intro allI impI)
    fix k :: nat assume "k < 20"
    then consider "k < ?n - 1" | "k = ?n - 1" using n by linarith
    then show "isl (Version_result w (?c + k))"
    proof cases
      case 1 with s show ?thesis by blast
    next
      case 2 with l n show ?thesis by (simp add: add.commute)
    qed
  qed
qed

lemma launch_and_probe_cases [case_names cmd_failed start_failed viable not_viable]:
  obtains
    err where "Command_result w (calls is_Command w) = Some err"
      "launch_and_probe fuel ice w =
         (Returns (Some (XError ''chrome.cmd'' err)),
          advance w [Command binary (args ice) (Some err)])"
  | err where "Command_result w (calls is_Command w) = None"
      "Start_result w (calls is_CmdStart w) = Inl err"
      "launch_and_probe fuel ice w =
         (Returns (Some err),
          advance w [Command binary (args ice) None, CmdStart (built ice) (Inl err)])"
  | p n where "Command_result w (calls is_Command w) = None"
      "Start_result w (calls is_CmdStart w) = Inr p"
      "1 \<le> n" "n \<le> 20" "\<not> isl (Version_result w (calls is_Version w + n - 1))"
      "launch_and_probe fuel ice w =
         (Returns None,
          advance w ([Command binary (args ice) None, CmdStart (built ice) (Inr p)]
                     @ probe_events w (calls is_Version w) n))"
  | p where "Command_result w (calls is_Command w) = None"
      "Start_result w (calls is_CmdStart w) = Inr p"
      "\<forall>k<20. isl (Version_result w (calls is_Version w + k))"
      "launch_and_probe fuel ice w =
         restart fuel \<lparr>Pid = p\<rparr> ice
           (advance w ([Command binary (args ice) None, CmdStart (built ice) (Inr p)]
                       @ probe_events w (calls is_Version w) 20))"
proof (cases "Command_result w (calls is_Command w)")
  case (Some err)
  then show ?thesis
    by (intro that(1)[of err]) (simp_all add: launch_and_probe_def cmd_advance)
next
  case None
  let ?w1 = "advance w [Command binary (args ice) None]"
  show ?thesis
  proof (cases "Start_result w (calls is_CmdStart w)")
    case (Inl err)
    with None show ?thesis
      by (intro that(2)[of err]) (simp_all add: launch_and_probe_def cmd_advance Cmd_Start_advance)
  next
    case (Inr p)
    let ?w2 = "advance w [Command binary (args ice) None, CmdStart (built ice) (Inr p)]"
    have c2: "calls is_Version ?w2 = calls is_Version w" by simp
    have lp: "launch_and_probe fuel ice w =
        (case IsViable ?w2 of
           ((isViable, _), w3) \<Rightarrow>
             if \<not> isViable then restart fuel \<lparr>Pid = p\<rparr> ice w3 else (Returns None, w3))"
      using None Inr by (simp add: launch_and_probe_def cmd_advance Cmd_Start_advance)
    show ?thesis
    proof (cases "fst (fst (IsViable ?w2))")
      case True
      note s = attempts_spec[of ?w2]
      from True have v: "\<not> isl (Version_result w (calls is_Version w + attempts ?w2 - 1))"
        by (simp add: IsViable_advance split: sum.splits)
      from True have "launch_and_probe fuel ice w = (Returns None, snd (IsViable ?w2))"
        unfolding lp by (cases "IsViable ?w2") auto
      then have "launch_and_probe fuel ice w =
         (Returns None,
          advance w ([Command binary (args ice) None, CmdStart (built ice) (Inr p)]
                     @ probe_events w (calls is_Version w) (attempts ?w2)))"
        by (simp add: IsViable_advance c2)
      with None Inr v s show ?thesis
        by (intro that(3)[of p "attempts ?w2"]) (simp_all add: maxViabilityTests_def)
    next
      case False
      from not_viable_attempts[OF False]
      have n: "attempts ?w2 = 20" and f: "\<forall>k<20. isl (Version_result w (calls is_Version w + k))"
        by (simp_all add: c2)
      from False have "launch_and_probe fuel ice w = restart fuel \<lparr>Pid = p\<rparr> ice (snd (IsViable ?w2))"
        unfolding lp by (cases "IsViable ?w2") auto
      then have "launch_and_probe fuel ice w =
         restart fuel \<lparr>Pid = p\<rparr> ice
           (advance w ([Command binary (args ice) None, CmdStart (built ice) (Inr p)]
                       @ probe_events w (calls is_Version w) 20))"
        by (simp add: IsViable_advance c2 n)
      with None Inr f show ?thesis
        by (intro that(4)[of p]) simp_all
    qed
  qed
qed

lemma restart_never_viable:
  assumes "\<forall>n. isl (Version_result w n)"
    and "\<forall>n. Command_result w n = None"
    and "\<forall>n. \<not> isl (Start_result w n)"
    and "\<forall>n msg. Kill_result w n = Some msg \<longrightarrow> sublist ''no such process'' msg"
  shows "fst (restart fuel proc ice w) = Pending
    \<and> (\<exists>es. snd (restart fuel proc ice w) = advance w es
          \<and> length (filter is_Kill es) = fuel
          \<and> length (filter is_CmdStart es) = fuel
          \<and> length (filter is_Version es) = 20 * fuel)"
  using assms
proof (induction fuel arbitrary: proc w)
  case 0
  show ?case by (simp add: exI[of _ "[]"] advance_def)
next
  case (Suc fuel)
  let ?k = "Kill (- Pid proc) SIGKILL (Kill_result w (calls is_Kill w))"
  let ?w1 = "advance w [?k]"
  have killed: "kill proc w = (None, ?w1)"
    using Suc.prems(4) by (auto simp: kill_advance split: option.splits)
  have unfold: "restart (Suc fuel) proc ice w =
      (escalated ''chrome.restart'' (fst (launch_and_probe fuel ice ?w1)),
       snd (launch_and_probe fuel ice ?w1))"
    by (simp add: restart_factored killed del: restart.simps)
  show ?case
  proof (cases rule: launch_and_probe_cases[where fuel = fuel and ice = ice and w = ?w1])
    case (cmd_failed err)
    with Suc.prems(2) show ?thesis by simp
  next
    case (start_failed err)
    with Suc.prems(3) show ?thesis by (metis advance_simps(2) isl_def)
  next
    case (viable p n)
    with Suc.prems(1) show ?thesis by simp
  next
    case (not_viable p)
    let ?es = "[Command binary (args ice) None, CmdStart (built ice) (Inr p)]
                 @ probe_events ?w1 (calls is_Version ?w1) 20"
    let ?w4 = "advance ?w1 ?es"
    have "fst (restart fuel \<lparr>Pid = p\<rparr> ice ?w4) = Pending
      \<and> (\<exists>es. snd (restart fuel \<lparr>Pid = p\<rparr> ice ?w4) = advance ?w4 es
          \<and> length (filter is_Kill es) = fuel
          \<and> length (filter is_CmdStart es) = fuel
          \<and> length (filter is_Version es) = 20 * fuel)"
      using Suc.prems by (intro Suc.IH) simp_all
    then obtain es where es: "fst (restart fuel \<lparr>Pid = p\<rparr> ice ?w4) = Pending"
      "snd (restart fuel \<lparr>Pid = p\<rparr> ice ?w4) = advance ?w4 es"
      "length (filter is_Kill es) = fuel" "length (filter is_CmdStart es) = fuel"
      "length (filter is_Version es) = 20 * fuel"
      by blast
    have "snd (restart (Suc fuel) proc ice w) = advance w ([?k] @ ?es @ es)"
      unfolding unfold not_viable(4) es(2) by simp
    moreover have "fst (restart (Suc fuel) proc ice w) = Pending"
      unfolding unfold not_viable(4) es(1) by simp
    moreover have "length (filter is_Kill ([?k] @ ?es @ es)) = Suc fuel"
      "length (filter is_CmdStart ([?k] @ ?es @ es)) = Suc fuel"
      "length (filter is_Version ([?k] @ ?es @ es)) = 20 * Suc fuel"
      using es(3-5) by (simp_all add: filter_probe_events)
    ultimately show ?thesis by blast
  qed
qed

text \<open>
  C3. When no probe ever succeeds while every launch and every termination does, \<^verbatim>\<open>Start\<close>
  has not returned at any recursion depth of \<^verbatim>\<open>restart\<close>: with depth \<open>fuel\<close> explored it is still
  pending, after \<open>fuel + 1\<close> launches, 20 probes for each launch and \<open>fuel\<close> terminations. So for
  every bound \<open>N\<close> the depth \<open>N + 1\<close> shows more than \<open>N\<close> launch-probe-kill cycles, and no
  maximum restart count ends the recursion.
\<close>

theorem restart_unbounded:
  assumes "\<forall>n. isl (Version_result w n)"
    and "\<forall>n. Command_result w n = None"
    and "\<forall>n. \<not> isl (Start_result w n)"
    and "\<forall>n msg. Kill_result w n = Some msg \<longrightarrow> sublist ''no such process'' msg"
  shows "fst (Start fuel ice w) = Pending
    \<and> calls is_CmdStart (snd (Start fuel ice w)) = calls is_CmdStart w + fuel + 1
    \<and> calls is_Version (snd (Start fuel ice w)) = calls is_Version w + 20 * (fuel + 1)
    \<and> calls is_Kill (snd (Start fuel ice w)) = calls is_Kill w + fuel"
proof (cases rule: launch_and_probe_cases[where fuel = fuel and ice = ice and w = w])
  case (cmd_failed err)
  with assms(2) show ?thesis by simp
next
  case (start_failed err)
  with assms(3) show ?thesis by (metis isl_def)
next
  case (viable p n)
  with assms(1) show ?thesis by simp
next
  case (not_viable p)
  let ?es = "[Command binary (args ice) None, CmdStart (built ice) (Inr p)]
               @ probe_events w (calls is_Version w) 20"
  let ?w3 = "advance w ?es"
  have "fst (restart fuel \<lparr>Pid = p\<rparr> ice ?w3) = Pending
    \<and> (\<exists>es. snd (restart fuel \<lparr>Pid = p\<rparr> ice ?w3) = advance ?w3 es
          \<and> length (filter is_Kill es) = fuel
          \<and> length (filter is_CmdStart es) = fuel
          \<and> length (filter is_Version es) = 20 * fuel)"
    using assms by (intro restart_never_viable) simp_all
  then obtain es where es: "fst (restart fuel \<lparr>Pid = p\<rparr> ice ?w3) = Pending"
    "snd (restart fuel \<lparr>Pid = p\<rparr> ice ?w3) = advance ?w3 es"
    "length (filter is_Kill es) = fuel" "length (filter is_CmdStart es) = fuel"
    "length (filter is_Version es) = 20 * fuel"
    by blast
  have "Start fuel ice w = (Pending, advance w (?es @ es))"
    unfolding Start_factored not_viable(4) es(1,2) by simp
  with es(3-5) show ?thesis
    by (simp add: filter_probe_events)
qed

theorem restart_unbounded_witness:
  "fst (Start 3 False w_refused) = Pending
   \<and> calls is_CmdStart (snd (Start 3 False w_refused)) = 4
   \<and> calls is_Version (snd (Start 3 False w_refused)) = 80
   \<and> calls is_Kill (snd (Start 3 False w_refused)) = 3"
proof -
  have h: "\<forall>n. isl (Version_result w_refused n)" "\<forall>n. Command_result w_refused n = None"
    "\<forall>n. \<not> isl (Start_result w_refused n)"
    "\<forall>n msg. Kill_result w_refused n = Some msg \<longrightarrow> sublist ''no such process'' msg"
    by (simp_all add: w_refused_def)
  have c: "calls is_CmdStart w_refused = 0" "calls is_Version w_refused = 0"
    "calls is_Kill w_refused = 0"
    by (simp_all add: w_refused_def calls_def)
  from restart_unbounded[OF h, of 3 False] show ?thesis
    unfolding c by simp
qed

section \<open>Ordering of termination and relaunch\<close>

declare restart.simps [simp del]

lemma port_after_append: "port_after (t @ es) = foldl port_step (port_after t) es"
  by (simp add: port_after_def)

lemma port_probe_events [simp]: "foldl port_step s (probe_events w c n) = s"
  by (induction n arbitrary: c s) (simp_all add: probe_events_0 probe_events_Suc_left)

lemma launch_and_probe_port:
  assumes IH: "\<And>proc w. port_after (trace w) = Held (Pid proc) \<Longrightarrow>
                 port_after (trace (snd (restart fuel proc ice w))) \<noteq> Conflict"
    and free: "port_after (trace w) = Free"
  shows "port_after (trace (snd (launch_and_probe fuel ice w))) \<noteq> Conflict"
proof (cases rule: launch_and_probe_cases[where fuel = fuel and ice = ice and w = w])
  case (cmd_failed err)
  with free show ?thesis by (simp add: port_after_append)
next
  case (start_failed err)
  with free show ?thesis by (simp add: port_after_append)
next
  case (viable p n)
  with free show ?thesis by (simp add: port_after_append)
next
  case (not_viable p)
  let ?w3 = "advance w ([Command binary (args ice) None, CmdStart (built ice) (Inr p)]
                        @ probe_events w (calls is_Version w) 20)"
  have "port_after (trace ?w3) = Held (Pid \<lparr>Pid = p\<rparr>)"
    using free by (simp add: port_after_append)
  from IH[OF this] show ?thesis
    unfolding not_viable(4) .
qed

lemma restart_port:
  "port_after (trace w) = Held (Pid proc) \<Longrightarrow>
     port_after (trace (snd (restart fuel proc ice w))) \<noteq> Conflict"
proof (induction fuel arbitrary: proc w)
  case 0
  then show ?case by (simp add: restart.simps(1))
next
  case (Suc fuel)
  let ?r = "Kill_result w (calls is_Kill w)"
  let ?w1 = "advance w [Kill (- Pid proc) SIGKILL ?r]"
  show ?case
  proof (cases "fst (kill proc w)")
    case (Some err)
    then have "snd (restart (Suc fuel) proc ice w) = ?w1"
      by (simp add: restart_factored kill_advance del: restart.simps)
    moreover from Some have "port_after (trace ?w1) = Held (Pid proc)"
      using Suc.prems by (auto simp: port_after_append kill_advance split: option.splits if_splits)
    ultimately show ?thesis by simp
  next
    case None
    then have unfold: "snd (restart (Suc fuel) proc ice w) = snd (launch_and_probe fuel ice ?w1)"
      by (simp add: restart_factored kill_advance del: restart.simps)
    from None have "port_after (trace ?w1) = Free"
      using Suc.prems by (auto simp: port_after_append kill_advance split: option.splits if_splits)
    from launch_and_probe_port[OF Suc.IH this] show ?thesis
      unfolding unfold by simp
  qed
qed

lemma restart_kill_failed:
  assumes "Kill_result w (calls is_Kill w) = Some msg" and "\<not> sublist ''no such process'' msg"
  shows "restart (Suc fuel) proc ice w =
     (Returns (Some (XError ''chrome.restart'' (XError ''chrome.kill'' (Error msg)))),
      advance w [Kill (- Pid proc) SIGKILL (Some msg)])"
  using assms by (simp add: restart_factored kill_advance del: restart.simps)

text \<open>
  C5. Over a whole supervision, and in every restart cycle on its own, no \<^verbatim>\<open>cmd.Start()\<close> happens
  while a process started earlier still holds the port: \<^verbatim>\<open>restart\<close> signals the stale process
  first, and launches only after the signal was delivered or the group was found gone. When
  the termination fails otherwise, \<^verbatim>\<open>restart\<close> makes no further external call (nothing is
  launched) and returns the termination error to its caller, wrapped under its tag.
\<close>

theorem restart_kills_before_launch:
  "(port_after (trace w0) = Free \<longrightarrow>
      port_after (trace (snd (Start fuel ice w0))) \<noteq> Conflict)
   \<and> (port_after (trace w) = Held (Pid proc) \<longrightarrow>
      port_after (trace (snd (restart fuel proc ice w))) \<noteq> Conflict)
   \<and> (\<forall>msg. Kill_result w (calls is_Kill w) = Some msg \<and> \<not> sublist ''no such process'' msg \<longrightarrow>
        restart (Suc fuel) proc ice w =
          (Returns (Some (XError ''chrome.restart'' (XError ''chrome.kill'' (Error msg)))),
           w\<lparr>trace := trace w @ [Kill (- Pid proc) SIGKILL (Some msg)]\<rparr>))"
proof (intro conjI impI allI)
  assume "port_after (trace w0) = Free"
  from launch_and_probe_port[OF restart_port this, of fuel ice]
  show "port_after (trace (snd (Start fuel ice w0))) \<noteq> Conflict"
    by (simp add: Start_factored)
next
  assume "port_after (trace w) = Held (Pid proc)"
  then show "port_after (trace (snd (restart fuel proc ice w))) \<noteq> Conflict"
    by (rule restart_port)
next
  fix msg
  assume "Kill_result w (calls is_Kill w) = Some msg \<and> \<not> sublist ''no such process'' msg"
  then show "restart (Suc fuel) proc ice w =
          (Returns (Some (XError ''chrome.restart'' (XError ''chrome.kill'' (Error msg)))),
           w\<lparr>trace := trace w @ [Kill (- Pid proc) SIGKILL (Some msg)]\<rparr>)"
    using restart_kill_failed[of w msg fuel proc ice] by (simp add: advance_def)
qed

lemma not_gone: "\<not> sublist ''no such process'' ''operation not permitted''"
  by (simp add: Contains_sublist[symmetric])

theorem restart_kills_before_launch_witness:
  "port_after (trace w_second) = Free
   \<and> port_after (trace (snd (Start 1 False w_second))) \<noteq> Conflict
   \<and> port_after (trace w_started) = Held (Pid \<lparr>Pid = 100\<rparr>)
   \<and> port_after (trace (snd (restart 1 \<lparr>Pid = 100\<rparr> False w_started))) \<noteq> Conflict
   \<and> Kill_result w_started (calls is_Kill w_started) = Some ''operation not permitted''
   \<and> \<not> sublist ''no such process'' ''operation not permitted''
   \<and> restart (Suc 1) \<lparr>Pid = 100\<rparr> False w_started =
          (Returns (Some (XError ''chrome.restart'' (XError ''chrome.kill'' (Error ''operation not permitted'')))),
           w_started\<lparr>trace := trace w_started @ [Kill (- Pid \<lparr>Pid = 100\<rparr>) SIGKILL (Some ''operation not permitted'')]\<rparr>)"
proof -
  have h1: "port_after (trace w_second) = Free"
    by (simp add: w_second_def port_after_def)
  have h2: "port_after (trace w_started) = Held (Pid \<lparr>Pid = 100\<rparr>)"
    by (simp add: w_started_def port_after_def)
  have h3: "Kill_result w_started (calls is_Kill w_started) = Some ''operation not permitted''"
    by (simp add: w_started_def w_denied_def)
  note t = restart_kills_before_launch[of w_second 1 False w_started "\<lparr>Pid = 100\<rparr>"]
  from h3 not_gone have h4: "Kill_result w_started (calls is_Kill w_started) = Some ''operation not permitted''
      \<and> \<not> sublist ''no such process'' ''operation not permitted''"
    by (intro conjI)
  from t[THEN conjunct1, rule_format, OF h1]
    t[THEN conjunct2, THEN conjunct1, rule_format, OF h2]
    t[THEN conjunct2, THEN conjunct2, rule_format, OF h4]
    h1 h2 h3 not_gone
  show ?thesis
    by (intro conjI)
qed

section \<open>What a failed supervision reports\<close>









end
